theory Spec2Isabelle
  imports
    Main
    "HOL-Library.Word"
    "HOL-Library.Char_ord"
    "HOL-Library.List_Lexorder"
    "HOL-Library.Multiset"
begin

unbundle bit_operations_syntax

section \<open>JSON values and \<open>json.dumps(..., sort_keys=True)\<close>\<close>

text \<open>
  The payload of a block is JSON-like data. A Python \<open>dict\<close> is an association list in
  insertion order (its keys are strings and pairwise distinct, see \<open>wf_json\<close>); a Python
  \<open>float\<close> is carried by the text \<open>float.__repr__\<close> gives it, which is what
  \<open>json.dumps\<close> emits for it; a Python \<open>str\<close> is a \<open>string\<close>, each character a code
  point below 256.
\<close>

datatype json =
    JNull
  | JBool bool
  | JInt int
  | JFloat string
  | JStr string
  | JList "json list"
  | JDict "(string \<times> json) list"

definition digit_char :: "nat \<Rightarrow> char" where
  "digit_char n = ''0123456789abcdef'' ! n"

function str_nat :: "nat \<Rightarrow> string" where
  "str_nat n = (if n < 10 then [digit_char n] else str_nat (n div 10) @ [digit_char (n mod 10)])"
  by pat_completeness auto
termination
  by (relation "measure (\<lambda>n. n)") auto

definition str_int :: "int \<Rightarrow> string" where
  "str_int i = (if i < 0 then CHR ''-'' # str_nat (nat (- i)) else str_nat (nat i))"

text \<open>
  \<open>json.encoder.py_encode_basestring_ascii\<close> (\<open>ensure_ascii\<close> is on by default): the
  quote and the backslash get a backslash, five control characters have a short escape,
  printable ASCII stands for itself, everything else is \<open>\uXXXX\<close>.
\<close>

definition escape_char :: "char \<Rightarrow> string" where
  "escape_char c =
     (if c = CHR 0x22 then [CHR 0x5C, CHR 0x22]
      else if c = CHR 0x5C then [CHR 0x5C, CHR 0x5C]
      else if c = CHR 0x0A then [CHR 0x5C, CHR ''n'']
      else if c = CHR 0x0D then [CHR 0x5C, CHR ''r'']
      else if c = CHR 0x09 then [CHR 0x5C, CHR ''t'']
      else if c = CHR 0x08 then [CHR 0x5C, CHR ''b'']
      else if c = CHR 0x0C then [CHR 0x5C, CHR ''f'']
      else if 32 \<le> (of_char c :: nat) \<and> (of_char c :: nat) \<le> 126 then [c]
      else [CHR 0x5C, CHR ''u'', CHR ''0'', CHR ''0'',
            digit_char ((of_char c :: nat) div 16), digit_char ((of_char c :: nat) mod 16)])"

definition encode_str :: "string \<Rightarrow> string" where
  "encode_str s = CHR 0x22 # concat (map escape_char s) @ [CHR 0x22]"

fun join :: "string \<Rightarrow> string list \<Rightarrow> string" where
  "join sep [] = []"
| "join sep [x] = x"
| "join sep (x # y # r) = x @ sep @ join sep (y # r)"

text \<open>
  \<open>json.dumps(v, sort_keys=True)\<close> with the default separators \<open>', '\<close> and \<open>': '\<close>:
  the items of every dict are sorted by key before they are written.
\<close>

fun dumps :: "json \<Rightarrow> string" where
  "dumps JNull = ''null''"
| "dumps (JBool b) = (if b then ''true'' else ''false'')"
| "dumps (JInt i) = str_int i"
| "dumps (JFloat r) = r"
| "dumps (JStr s) = encode_str s"
| "dumps (JList vs) = ''['' @ join '', '' (map dumps vs) @ '']''"
| "dumps (JDict kvs) =
     ''{'' @ join '', '' (map (\<lambda>kv. encode_str (fst kv) @ '': '' @ dumps (snd kv))
                              (sort_key fst kvs)) @ ''}''"

section \<open>Blocks\<close>

text \<open>
  \<open>class Block\<close>. The index and the nonce are Python integers; the timestamp is the
  float \<open>time.time()\<close> returned when the block was constructed, an input of the model.
\<close>

record block =
  index :: int
  timestamp :: string
  data :: json
  previous_hash :: string
  nonce :: int
  hash :: string

text \<open>
  The dictionary \<open>block_dict\<close> of \<open>Block.compute_hash\<close>, in the order the source
  writes its keys, and the text \<open>json.dumps(block_dict, sort_keys=True)\<close>. The stored
  hash is not part of it.
\<close>

definition block_dict :: "block \<Rightarrow> json" where
  "block_dict b = JDict
     [(''index'', JInt (index b)),
      (''timestamp'', JFloat (timestamp b)),
      (''data'', data b),
      (''previous_hash'', JStr (previous_hash b)),
      (''nonce'', JInt (nonce b))]"

definition block_string :: "block \<Rightarrow> string" where
  "block_string b = dumps (block_dict b)"

text \<open>
  \<open>Block.compute_hash\<close>. The digest \<open>H\<close> stands for
  \<open>\<lambda>s. hashlib.sha256(s.encode()).hexdigest()\<close>; the text that \<open>dumps\<close> returns is
  ASCII, so encoding it leaves its characters as they are. Every result below holds for
  every digest function; \<open>sha256_hexdigest\<close> is the one the program uses.
\<close>

definition compute_hash :: "(string \<Rightarrow> string) \<Rightarrow> block \<Rightarrow> string" where
  "compute_hash H b = H (block_string b)"

text \<open>
  \<open>Block.__init__\<close>, with the value of \<open>time.time()\<close> as the argument \<open>ts\<close>. The
  attribute \<open>hash\<close> does not exist yet when \<open>compute_hash\<close> runs for the first time;
  \<open>compute_hash\<close> does not read it.
\<close>

definition Block_init :: "(string \<Rightarrow> string) \<Rightarrow> string \<Rightarrow> int \<Rightarrow> json \<Rightarrow> string \<Rightarrow> block" where
  "Block_init H ts idx dat prev =
     (let b = \<lparr>index = idx, timestamp = ts, data = dat, previous_hash = prev,
               nonce = 0, hash = []\<rparr>
      in b\<lparr>hash := compute_hash H b\<rparr>)"

section \<open>The chain\<close>

text \<open>
  \<open>class Blockchain\<close>: the list \<open>chain\<close> and the class attribute \<open>difficulty\<close>,
  which is 4 unless it is reassigned. \<open>Blockchain.__init__\<close> starts from the empty list
  and appends the genesis block.
\<close>

record blockchain =
  chain :: "block list"
  difficulty :: int

text \<open>
  \<open>IndexError\<close> is the builtin exception that indexing a list out of range raises.
  \<open>EmptyChainError\<close> is the error the specification names for \<open>last_block\<close> on an
  empty chain; the source defines no exception of its own, and no function below
  returns it.
\<close>

datatype error = IndexError | EmptyChainError

definition create_genesis_block :: "(string \<Rightarrow> string) \<Rightarrow> string \<Rightarrow> blockchain \<Rightarrow> blockchain" where
  "create_genesis_block H ts bc =
     bc\<lparr>chain := chain bc @
        [Block_init H ts 0 (JDict [(''message'', JStr ''Genesis block'')]) ''0'']\<rparr>"

definition Blockchain_init :: "(string \<Rightarrow> string) \<Rightarrow> string \<Rightarrow> blockchain" where
  "Blockchain_init H ts = create_genesis_block H ts \<lparr>chain = [], difficulty = 4\<rparr>"

text \<open>\<open>last_block\<close> is \<open>self.chain[-1]\<close>, which raises \<open>IndexError\<close> on an empty list.\<close>

definition last_block :: "blockchain \<Rightarrow> error + block" where
  "last_block bc = (case chain bc of [] \<Rightarrow> Inl IndexError | _ # _ \<Rightarrow> Inr (last (chain bc)))"

text \<open>\<open>str.startswith\<close> and the prefix \<open>"0" * self.difficulty\<close>.\<close>

fun startswith :: "string \<Rightarrow> string \<Rightarrow> bool" where
  "startswith s [] = True"
| "startswith [] (p # ps) = False"
| "startswith (c # cs) (p # ps) = (c = p \<and> startswith cs ps)"

definition zeros :: "int \<Rightarrow> string" where
  "zeros d = replicate (nat d) CHR ''0''"

text \<open>
  \<open>proof_of_work\<close>. One turn of the loop is \<open>next_nonce\<close>; the loop has no bound, so
  it is a partial function, \<open>None\<close> when it runs forever. The call returns the hash
  and leaves the block changed: both are in the result.
\<close>

definition next_nonce :: "(string \<Rightarrow> string) \<Rightarrow> block \<Rightarrow> block" where
  "next_nonce H b = (let b1 = b\<lparr>nonce := nonce b + 1\<rparr> in b1\<lparr>hash := compute_hash H b1\<rparr>)"

text \<open>The block after \<open>n\<close> turns of the loop.\<close>

definition after_turns :: "(string \<Rightarrow> string) \<Rightarrow> nat \<Rightarrow> block \<Rightarrow> block" where
  "after_turns H n b = (next_nonce H ^^ n) b"

partial_function (option) pow_loop :: "(string \<Rightarrow> string) \<Rightarrow> string \<Rightarrow> block \<Rightarrow> block option" where
  "pow_loop H prefix b =
     (if \<not> startswith (hash b) prefix then pow_loop H prefix (next_nonce H b) else Some b)"

definition proof_of_work :: "(string \<Rightarrow> string) \<Rightarrow> blockchain \<Rightarrow> block \<Rightarrow> (string \<times> block) option" where
  "proof_of_work H bc b =
     (case pow_loop H (zeros (difficulty bc)) b of
        None \<Rightarrow> None
      | Some b' \<Rightarrow> Some (hash b', b'))"

text \<open>
  \<open>add_block\<close>: the arguments of \<open>Block(...)\<close> are evaluated first, so an empty chain
  raises before anything else happens; the result is the new block and the chain with
  that block at its end.
\<close>

definition add_block ::
  "(string \<Rightarrow> string) \<Rightarrow> string \<Rightarrow> json \<Rightarrow> blockchain \<Rightarrow> (error + block \<times> blockchain) option" where
  "add_block H ts dat bc =
     (case last_block bc of
        Inl e \<Rightarrow> Some (Inl e)
      | Inr lb \<Rightarrow>
          (case proof_of_work H bc (Block_init H ts (int (length (chain bc))) dat (hash lb)) of
             None \<Rightarrow> None
           | Some (h, new_block) \<Rightarrow>
               Some (Inr (new_block, bc\<lparr>chain := chain bc @ [new_block]\<rparr>))))"

text \<open>
  \<open>is_valid\<close>: the loop \<open>for i in range(1, len(self.chain))\<close> with its three tests in
  the order of the source, each returning \<open>False\<close> at once.
\<close>

function is_valid_loop :: "(string \<Rightarrow> string) \<Rightarrow> string \<Rightarrow> block list \<Rightarrow> nat \<Rightarrow> bool" where
  "is_valid_loop H prefix c i =
     (if i < length c then
        (let current = c ! i; previous = c ! (i - 1) in
           if hash current \<noteq> compute_hash H current then False
           else if previous_hash current \<noteq> hash previous then False
           else if \<not> startswith (hash current) prefix then False
           else is_valid_loop H prefix c (i + 1))
      else True)"
  by pat_completeness auto
termination
  by (relation "measure (\<lambda>(H, prefix, c, i). length c - i)") auto

declare is_valid_loop.simps [simp del]

definition is_valid :: "(string \<Rightarrow> string) \<Rightarrow> blockchain \<Rightarrow> bool" where
  "is_valid H bc = is_valid_loop H (zeros (difficulty bc)) (chain bc) 1"

section \<open>SHA-256\<close>

text \<open>
  \<open>hashlib.sha256(bytes).hexdigest()\<close> after FIPS 180-4, a byte being a \<open>char\<close>: the
  message is padded to a multiple of 64 bytes, cut into blocks of sixteen 32-bit words,
  each block is expanded to 64 words and run through 64 rounds, and the eight words of
  the final state are written as 64 lowercase hexadecimal digits. The 64 round
  constants \<open>K256\<close> (the first 32 bits of the fractional parts of the cube roots of the
  first 64 primes) are given in decimal.
\<close>

type_synonym sha_state =
  "32 word \<times> 32 word \<times> 32 word \<times> 32 word \<times> 32 word \<times> 32 word \<times> 32 word \<times> 32 word"

definition K256 :: "32 word list" where
  "K256 = [
   1116352408, 1899447441, 3049323471, 3921009573,
   961987163, 1508970993, 2453635748, 2870763221,
   3624381080, 310598401, 607225278, 1426881987,
   1925078388, 2162078206, 2614888103, 3248222580,
   3835390401, 4022224774, 264347078, 604807628,
   770255983, 1249150122, 1555081692, 1996064986,
   2554220882, 2821834349, 2952996808, 3210313671,
   3336571891, 3584528711, 113926993, 338241895,
   666307205, 773529912, 1294757372, 1396182291,
   1695183700, 1986661051, 2177026350, 2456956037,
   2730485921, 2820302411, 3259730800, 3345764771,
   3516065817, 3600352804, 4094571909, 275423344,
   430227734, 506948616, 659060556, 883997877,
   958139571, 1322822218, 1537002063, 1747873779,
   1955562222, 2024104815, 2227730452, 2361852424,
   2428436474, 2756734187, 3204031479, 3329325298]"

definition H256 :: sha_state where
  "H256 = (0x6a09e667, 0xbb67ae85, 0x3c6ef372, 0xa54ff53a,
           0x510e527f, 0x9b05688c, 0x1f83d9ab, 0x5be0cd19)"

definition rotr :: "nat \<Rightarrow> 32 word \<Rightarrow> 32 word" where
  "rotr n x = drop_bit n x OR push_bit (32 - n) x"

definition Ch :: "32 word \<Rightarrow> 32 word \<Rightarrow> 32 word \<Rightarrow> 32 word" where
  "Ch x y z = (x AND y) XOR (NOT x AND z)"

definition Maj :: "32 word \<Rightarrow> 32 word \<Rightarrow> 32 word \<Rightarrow> 32 word" where
  "Maj x y z = (x AND y) XOR (x AND z) XOR (y AND z)"

definition bsig0 :: "32 word \<Rightarrow> 32 word" where
  "bsig0 x = rotr 2 x XOR rotr 13 x XOR rotr 22 x"

definition bsig1 :: "32 word \<Rightarrow> 32 word" where
  "bsig1 x = rotr 6 x XOR rotr 11 x XOR rotr 25 x"

definition ssig0 :: "32 word \<Rightarrow> 32 word" where
  "ssig0 x = rotr 7 x XOR rotr 18 x XOR drop_bit 3 x"

definition ssig1 :: "32 word \<Rightarrow> 32 word" where
  "ssig1 x = rotr 17 x XOR rotr 19 x XOR drop_bit 10 x"

definition bit_length_bytes :: "nat \<Rightarrow> string" where
  "bit_length_bytes n =
     map (\<lambda>k. char_of ((8 * int n) div 256 ^ k mod 256)) [7, 6, 5, 4, 3, 2, 1, 0]"

definition pad :: "string \<Rightarrow> string" where
  "pad m = m @ [CHR 0x80] @ replicate ((64 - (length m + 9) mod 64) mod 64) (CHR 0x00)
             @ bit_length_bytes (length m)"

fun be_words :: "string \<Rightarrow> 32 word list" where
  "be_words (a # b # c # d # r) =
     (push_bit 24 (of_char a) OR push_bit 16 (of_char b) OR push_bit 8 (of_char c) OR of_char d)
       # be_words r"
| "be_words r = []"

fun chunks :: "nat \<Rightarrow> 32 word list \<Rightarrow> 32 word list list" where
  "chunks 0 ws = []"
| "chunks (Suc k) ws = take 16 ws # chunks k (drop 16 ws)"

fun schedule :: "nat \<Rightarrow> 32 word list \<Rightarrow> 32 word list" where
  "schedule 0 ws = ws"
| "schedule (Suc n) ws =
     schedule n (ws @ [ssig1 (ws ! (length ws - 2)) + ws ! (length ws - 7)
                       + ssig0 (ws ! (length ws - 15)) + ws ! (length ws - 16)])"

fun shift_in :: "32 word \<Rightarrow> 32 word \<Rightarrow> sha_state \<Rightarrow> sha_state" where
  "shift_in t1 t2 (a, b, c, d, e, f, g, h) = (t1 + t2, a, b, c, d + t1, e, f, g)"

fun round256 :: "sha_state \<Rightarrow> 32 word \<times> 32 word \<Rightarrow> sha_state" where
  "round256 (a, b, c, d, e, f, g, h) (k, w) =
     shift_in (h + bsig1 e + Ch e f g + k + w) (bsig0 a + Maj a b c) (a, b, c, d, e, f, g, h)"

fun add_state :: "sha_state \<Rightarrow> sha_state \<Rightarrow> sha_state" where
  "add_state (a, b, c, d, e, f, g, h) (a', b', c', d', e', f', g', h') =
     (a + a', b + b', c + c', d + d', e + e', f + f', g + g', h + h')"

definition compress :: "sha_state \<Rightarrow> 32 word list \<Rightarrow> sha_state" where
  "compress s blk = add_state s (foldl round256 s (zip K256 (schedule 48 blk)))"

definition sha256 :: "string \<Rightarrow> sha_state" where
  "sha256 m = (let ws = be_words (pad m) in foldl compress H256 (chunks (length ws div 16) ws))"

definition hex_of :: "32 word \<Rightarrow> string" where
  "hex_of w = map (\<lambda>k. digit_char (unat (drop_bit (4 * k) w AND 0xF))) [7, 6, 5, 4, 3, 2, 1, 0]"

fun hex_state :: "sha_state \<Rightarrow> string" where
  "hex_state (a, b, c, d, e, f, g, h) =
     hex_of a @ hex_of b @ hex_of c @ hex_of d @ hex_of e @ hex_of f @ hex_of g @ hex_of h"

definition sha256_hexdigest :: "string \<Rightarrow> string" where
  "sha256_hexdigest s = hex_state (sha256 s)"

text \<open>
  A second, small digest, used to run the definitions on concrete chains: the sum of the
  character codes of the text in decimal, behind four zeros when the sum is even and
  behind \<open>ffff\<close> when it is odd.
\<close>

definition checksum :: "string \<Rightarrow> nat" where
  "checksum s = sum_list (map of_char s)"

definition checksum_digest :: "string \<Rightarrow> string" where
  "checksum_digest s = (if even (checksum s) then ''0000'' else ''ffff'') @ str_nat (checksum s)"

text \<open>
  The chain of the demonstration under that digest: the genesis block, a block
  from Alice to Bob sealed with nonce 1 and a block from Bob to Charlie sealed with
  nonce 0.
\<close>

definition genesis_payload :: json where
  "genesis_payload = JDict [(''message'', JStr ''Genesis block'')]"

definition alice_payload :: json where
  "alice_payload = JDict [(''from'', JStr ''Alice''), (''to'', JStr ''Bob''), (''amount'', JInt 10)]"

definition bob_payload :: json where
  "bob_payload = JDict [(''from'', JStr ''Bob''), (''to'', JStr ''Charlie''), (''amount'', JInt 5)]"

definition alice_reordered :: json where
  "alice_reordered = JDict [(''amount'', JInt 10), (''to'', JStr ''Bob''), (''from'', JStr ''Alice'')]"

definition tampered_payload :: json where
  "tampered_payload = JDict [(''from'', JStr ''Alice''), (''to'', JStr ''Bob''), (''amount'', JInt 999)]"

definition demo_genesis :: block where
  "demo_genesis = \<lparr>index = 0, timestamp = ''1700000000.25'', data = genesis_payload,
     previous_hash = ''0'', nonce = 0, hash = ''00008544''\<rparr>"

definition demo_block1 :: block where
  "demo_block1 = \<lparr>index = 1, timestamp = ''1700000002.5'', data = alice_payload,
     previous_hash = ''00008544'', nonce = 1, hash = ''00009550''\<rparr>"

definition demo_block2 :: block where
  "demo_block2 = \<lparr>index = 2, timestamp = ''1700000004.5'', data = bob_payload,
     previous_hash = ''00009550'', nonce = 0, hash = ''00009724''\<rparr>"

text \<open>
  Two blocks that no run of the program alone produces: a genesis block with another
  payload and nonce under the hash of \<open>demo_genesis\<close>, and a block whose hash
  field was overwritten with four zeros.
\<close>

definition forged_genesis :: block where
  "forged_genesis = \<lparr>index = 0, timestamp = ''1700000000.25'', data = tampered_payload,
     previous_hash = ''0'', nonce = 7, hash = ''00008544''\<rparr>"

definition forged_block :: block where
  "forged_block = \<lparr>index = 1, timestamp = ''1700000002.5'', data = alice_payload,
     previous_hash = ''0'', nonce = 0, hash = ''0000''\<rparr>"

definition demo_chain :: blockchain where
  "demo_chain = \<lparr>chain = [demo_genesis, demo_block1, demo_block2], difficulty = 4\<rparr>"





section \<open>Predicates of the specification\<close>

text \<open>The three tests \<open>is_valid\<close> makes on the block at position \<open>i\<close> of a chain.\<close>

definition block_checks :: "(string \<Rightarrow> string) \<Rightarrow> int \<Rightarrow> block list \<Rightarrow> nat \<Rightarrow> bool" where
  "block_checks H d c i \<longleftrightarrow>
     hash (c ! i) = compute_hash H (c ! i) \<and>
     previous_hash (c ! i) = hash (c ! (i - 1)) \<and>
     take (nat d) (hash (c ! i)) = replicate (nat d) CHR ''0''"




text \<open>
  A chain built by the program alone: \<open>Blockchain()\<close> followed by one \<open>add_block\<close>
  for each payload of a list, each with the time at which its block is constructed.
\<close>

fun add_blocks ::
  "(string \<Rightarrow> string) \<Rightarrow> (string \<times> json) list \<Rightarrow> blockchain \<Rightarrow> (error + blockchain) option" where
  "add_blocks H [] bc = Some (Inr bc)"
| "add_blocks H ((ts, dat) # r) bc =
     (case add_block H ts dat bc of
        None \<Rightarrow> None
      | Some (Inl e) \<Rightarrow> Some (Inl e)
      | Some (Inr (b, bc')) \<Rightarrow> add_blocks H r bc')"

section \<open>Properties of the definitions\<close>

subsection \<open>Validation\<close>

lemma startswith_take: "startswith s p \<longleftrightarrow> take (length p) s = p"
  by (induction s p rule: startswith.induct) auto

lemma startswith_zeros:
  "startswith s (zeros d) \<longleftrightarrow> take (nat d) s = replicate (nat d) CHR ''0''"
  by (simp add: startswith_take zeros_def)

lemma is_valid_loop_iff:
  "is_valid_loop H (zeros d) c i \<longleftrightarrow> (\<forall>j. i \<le> j \<and> j < length c \<longrightarrow> block_checks H d c j)"
proof (induction H "zeros d" c i rule: is_valid_loop.induct)
  case (1 H c i)
  show ?case
  proof (cases "i < length c")
    case False
    then show ?thesis by (subst is_valid_loop.simps) auto
  next
    case True
    show ?thesis
    proof (cases "block_checks H d c i")
      case False
      with True have "\<not> is_valid_loop H (zeros d) c i"
        by (subst is_valid_loop.simps) (auto simp: block_checks_def startswith_zeros Let_def)
      moreover from True False have "\<not> (\<forall>j. i \<le> j \<and> j < length c \<longrightarrow> block_checks H d c j)"
        by auto
      ultimately show ?thesis by simp
    next
      case ok: True
      with True have step: "is_valid_loop H (zeros d) c i = is_valid_loop H (zeros d) c (i + 1)"
        by (subst is_valid_loop.simps) (auto simp: block_checks_def startswith_zeros Let_def)
      from True ok have ih: "is_valid_loop H (zeros d) c (i + 1) \<longleftrightarrow>
          (\<forall>j. i + 1 \<le> j \<and> j < length c \<longrightarrow> block_checks H d c j)"
        by (intro "1.hyps"[OF True refl refl]) (auto simp: block_checks_def startswith_zeros)
      have "(\<forall>j. i \<le> j \<and> j < length c \<longrightarrow> block_checks H d c j) \<longleftrightarrow>
            (\<forall>j. i + 1 \<le> j \<and> j < length c \<longrightarrow> block_checks H d c j)"
      proof
        assume "\<forall>j. i \<le> j \<and> j < length c \<longrightarrow> block_checks H d c j"
        then show "\<forall>j. i + 1 \<le> j \<and> j < length c \<longrightarrow> block_checks H d c j" by auto
      next
        assume r: "\<forall>j. i + 1 \<le> j \<and> j < length c \<longrightarrow> block_checks H d c j"
        show "\<forall>j. i \<le> j \<and> j < length c \<longrightarrow> block_checks H d c j"
        proof (intro allI impI)
          fix j assume "i \<le> j \<and> j < length c"
          then show "block_checks H d c j" using r ok by (cases "j = i") auto
        qed
      qed
      with step ih show ?thesis by simp
    qed
  qed
qed

lemma is_valid_iff:
  "is_valid H bc \<longleftrightarrow> (\<forall>j. 1 \<le> j \<and> j < length (chain bc) \<longrightarrow> block_checks H (difficulty bc) (chain bc) j)"
  by (simp add: is_valid_def is_valid_loop_iff)


lemma block_checks_genesis_swap:
  assumes "hash g = hash g'" and "1 \<le> j"
  shows "block_checks H d (g # rest) j = block_checks H d (g' # rest) j"
proof (cases j)
  case 0
  with assms(2) show ?thesis by simp
next
  case (Suc k)
  with assms(1) show ?thesis
    by (cases k) (simp_all add: block_checks_def)
qed

lemma compute_hash_cong:
  "index b = index b' \<Longrightarrow> timestamp b = timestamp b' \<Longrightarrow> data b = data b' \<Longrightarrow>
   previous_hash b = previous_hash b' \<Longrightarrow> nonce b = nonce b' \<Longrightarrow>
   compute_hash H b = compute_hash H b'"
  by (simp add: compute_hash_def block_string_def block_dict_def)

lemma compute_hash_hash_update [simp]: "compute_hash H (b\<lparr>hash := h\<rparr>) = compute_hash H b"
  by (rule compute_hash_cong) simp_all

lemma next_nonce_fields [simp]:
  "index (next_nonce H b) = index b"
  "timestamp (next_nonce H b) = timestamp b"
  "data (next_nonce H b) = data b"
  "previous_hash (next_nonce H b) = previous_hash b"
  "nonce (next_nonce H b) = nonce b + 1"
  "hash (next_nonce H b) = compute_hash H (next_nonce H b)"
  by (simp_all add: next_nonce_def Let_def)

lemma after_turns_0 [simp]: "after_turns H 0 b = b"
  by (simp add: after_turns_def)

lemma after_turns_Suc: "after_turns H (Suc n) b = after_turns H n (next_nonce H b)"
  by (simp add: after_turns_def funpow_swap1)

lemma after_turns_Suc': "after_turns H (Suc n) b = next_nonce H (after_turns H n b)"
  by (simp add: after_turns_def)

lemma after_turns_fields [simp]:
  "index (after_turns H n b) = index b"
  "timestamp (after_turns H n b) = timestamp b"
  "data (after_turns H n b) = data b"
  "previous_hash (after_turns H n b) = previous_hash b"
  "nonce (after_turns H n b) = nonce b + int n"
  by (induction n) (simp_all add: after_turns_Suc')

lemma after_turns_hash:
  "0 < n \<or> hash b = compute_hash H b \<Longrightarrow>
     hash (after_turns H n b) = compute_hash H (after_turns H n b)"
  by (cases n) (simp_all add: after_turns_Suc')

lemma pow_loop_found:
  "startswith (hash (after_turns H n b)) p \<Longrightarrow>
   \<forall>m < n. \<not> startswith (hash (after_turns H m b)) p \<Longrightarrow>
   pow_loop H p b = Some (after_turns H n b)"
proof (induction n arbitrary: b)
  case 0
  then show ?case by (subst pow_loop.simps) simp
next
  case (Suc n)
  from Suc.prems(2) have nb: "\<not> startswith (hash b) p"
    by (metis after_turns_0 zero_less_Suc)
  have "pow_loop H p (next_nonce H b) = Some (after_turns H n (next_nonce H b))"
  proof (rule Suc.IH)
    show "startswith (hash (after_turns H n (next_nonce H b))) p"
      using Suc.prems(1) by (simp add: after_turns_Suc)
    show "\<forall>m < n. \<not> startswith (hash (after_turns H m (next_nonce H b))) p"
      using Suc.prems(2) by (metis after_turns_Suc Suc_less_eq)
  qed
  with nb show ?case
    by (subst pow_loop.simps) (simp add: after_turns_Suc)
qed

lemma pow_loop_SomeD:
  assumes "pow_loop H p b = Some b'"
  shows "\<exists>n. b' = after_turns H n b \<and> startswith (hash b') p \<and>
       (\<forall>m < n. \<not> startswith (hash (after_turns H m b)) p)"
proof -
  let ?P = "\<lambda>H p b b'. \<exists>n. b' = after_turns H n b \<and> startswith (hash b') p \<and>
       (\<forall>m < n. \<not> startswith (hash (after_turns H m b)) p)"
  have "?P H p b b'"
  proof (rule pow_loop.raw_induct[where P = ?P, OF _ assms])
    fix pl :: "(string \<Rightarrow> string) \<Rightarrow> string \<Rightarrow> block \<Rightarrow> block option"
    fix H p b b'
    assume IH: "\<And>H p b b'. pl H p b = Some b' \<Longrightarrow> ?P H p b b'"
      and eq: "(if \<not> startswith (hash b) p then pl H p (next_nonce H b) else Some b) = Some b'"
    show "?P H p b b'"
    proof (cases "startswith (hash b) p")
      case True
      with eq have "b' = b" by simp
      with True show ?thesis by (intro exI[of _ 0]) simp
    next
      case False
      with eq have "pl H p (next_nonce H b) = Some b'" by simp
      from IH[OF this] obtain n where n: "b' = after_turns H n (next_nonce H b)"
        "startswith (hash b') p"
        "\<forall>m < n. \<not> startswith (hash (after_turns H m (next_nonce H b))) p"
        by blast
      have "\<forall>m < Suc n. \<not> startswith (hash (after_turns H m b)) p"
      proof (intro allI impI)
        fix m assume "m < Suc n"
        then show "\<not> startswith (hash (after_turns H m b)) p"
          using False n(3) by (cases m) (simp_all add: after_turns_Suc)
      qed
      with n(1,2) show ?thesis
        by (intro exI[of _ "Suc n"]) (simp add: after_turns_Suc)
    qed
  qed
  then show ?thesis .
qed

lemma pow_loop_None_iff:
  "pow_loop H p b = None \<longleftrightarrow> (\<forall>n. \<not> startswith (hash (after_turns H n b)) p)"
proof
  assume none: "pow_loop H p b = None"
  show "\<forall>n. \<not> startswith (hash (after_turns H n b)) p"
  proof (rule ccontr)
    assume "\<not> (\<forall>n. \<not> startswith (hash (after_turns H n b)) p)"
    then obtain n where "startswith (hash (after_turns H n b)) p" by blast
    then obtain k where k: "startswith (hash (after_turns H k b)) p"
      "\<forall>m < k. \<not> startswith (hash (after_turns H m b)) p"
      using exists_least_iff[of "\<lambda>n. startswith (hash (after_turns H n b)) p"] by blast
    from pow_loop_found[OF this] none show False by simp
  qed
next
  assume all: "\<forall>n. \<not> startswith (hash (after_turns H n b)) p"
  show "pow_loop H p b = None"
  proof (cases "pow_loop H p b")
    case None
    then show ?thesis .
  next
    case (Some b')
    from pow_loop_SomeD[OF this] all show ?thesis by blast
  qed
qed

lemma pow_loop_frame:
  assumes "pow_loop H p b = Some b'"
  shows "index b' = index b" "timestamp b' = timestamp b" "data b' = data b"
    "previous_hash b' = previous_hash b" "nonce b \<le> nonce b'" "startswith (hash b') p"
    "hash b = compute_hash H b \<or> nonce b' \<noteq> nonce b \<Longrightarrow> hash b' = compute_hash H b'"
proof -
  from pow_loop_SomeD[OF assms] obtain n where n: "b' = after_turns H n b"
    "startswith (hash b') p" by blast
  from n show "index b' = index b" "timestamp b' = timestamp b" "data b' = data b"
    "previous_hash b' = previous_hash b" "nonce b \<le> nonce b'" "startswith (hash b') p"
    by simp_all
  assume "hash b = compute_hash H b \<or> nonce b' \<noteq> nonce b"
  with n(1) have "0 < n \<or> hash b = compute_hash H b" by (cases n) auto
  from after_turns_hash[OF this] n(1) show "hash b' = compute_hash H b'" by simp
qed

lemma Block_init_fields [simp]:
  "index (Block_init H ts i dat prev) = i"
  "timestamp (Block_init H ts i dat prev) = ts"
  "data (Block_init H ts i dat prev) = dat"
  "previous_hash (Block_init H ts i dat prev) = prev"
  "nonce (Block_init H ts i dat prev) = 0"
  "hash (Block_init H ts i dat prev) = compute_hash H (Block_init H ts i dat prev)"
  by (simp_all add: Block_init_def Let_def compute_hash_def block_string_def block_dict_def)

subsection \<open>Appending\<close>

lemma last_block_nonempty: "chain bc \<noteq> [] \<Longrightarrow> last_block bc = Inr (last (chain bc))"
  by (cases "chain bc") (simp_all add: last_block_def)

lemma last_block_empty: "chain bc = [] \<Longrightarrow> last_block bc = Inl IndexError"
  by (simp add: last_block_def)

lemma proof_of_work_SomeD:
  assumes "proof_of_work H bc b = Some (h, b')"
  shows "pow_loop H (zeros (difficulty bc)) b = Some b'" "h = hash b'"
  using assms by (auto simp: proof_of_work_def split: option.splits)

lemma proof_of_work_immediate:
  "startswith (hash b) (zeros (difficulty bc)) \<Longrightarrow> proof_of_work H bc b = Some (hash b, b)"
  by (subst proof_of_work_def, subst pow_loop.simps) simp

lemma add_block_SomeD:
  assumes "add_block H ts dat bc = Some (Inr (nb, bc'))"
  shows "chain bc \<noteq> []"
    "pow_loop H (zeros (difficulty bc))
       (Block_init H ts (int (length (chain bc))) dat (hash (last (chain bc)))) = Some nb"
    "bc' = bc\<lparr>chain := chain bc @ [nb]\<rparr>"
proof -
  show ne: "chain bc \<noteq> []"
    using assms by (auto simp: add_block_def last_block_empty)
  from ne assms show "pow_loop H (zeros (difficulty bc))
       (Block_init H ts (int (length (chain bc))) dat (hash (last (chain bc)))) = Some nb"
    "bc' = bc\<lparr>chain := chain bc @ [nb]\<rparr>"
    by (auto simp: add_block_def last_block_nonempty proof_of_work_def split: option.splits)
qed

lemma add_block_sealed:
  assumes "add_block H ts dat bc = Some (Inr (nb, bc'))"
  shows "index nb = int (length (chain bc))" "timestamp nb = ts" "data nb = dat"
    "previous_hash nb = hash (last (chain bc))" "hash nb = compute_hash H nb"
    "take (nat (difficulty bc)) (hash nb) = replicate (nat (difficulty bc)) CHR ''0''"
    "chain bc' = chain bc @ [nb]" "difficulty bc' = difficulty bc"
proof -
  note d = add_block_SomeD[OF assms]
  note f = pow_loop_frame[OF d(2)]
  from f(1-4) show "index nb = int (length (chain bc))" "timestamp nb = ts" "data nb = dat"
    "previous_hash nb = hash (last (chain bc))" by simp_all
  from f(7) show "hash nb = compute_hash H nb" by simp
  from f(6) show "take (nat (difficulty bc)) (hash nb) = replicate (nat (difficulty bc)) CHR ''0''"
    by (simp add: startswith_zeros)
  from d(3) show "chain bc' = chain bc @ [nb]" "difficulty bc' = difficulty bc" by simp_all
qed

lemma add_block_keeps_valid:
  assumes ne: "chain bc \<noteq> []" and v: "is_valid H bc"
    and a: "add_block H ts dat bc = Some (Inr (nb, bc'))"
  shows "is_valid H bc'"
proof -
  note s = add_block_sealed[OF a]
  have "block_checks H (difficulty bc') (chain bc') j"
    if j: "1 \<le> j \<and> j < length (chain bc')" for j
  proof (cases "j < length (chain bc)")
    case True
    with v j have "block_checks H (difficulty bc) (chain bc) j"
      by (simp add: is_valid_iff)
    moreover from True have "j - 1 < length (chain bc)" by simp
    ultimately show ?thesis using True
      by (auto simp: block_checks_def s(7,8) nth_append)
  next
    case False
    with j s(7) have je: "j = length (chain bc)" by simp
    from ne have "(chain bc @ [nb]) ! (length (chain bc) - 1) = last (chain bc)"
      by (simp add: nth_append last_conv_nth)
    with je s(5,6) show ?thesis
      by (simp add: block_checks_def s(4,7,8))
  qed
  then show ?thesis by (simp add: is_valid_iff)
qed

lemma add_blocks_invariant:
  assumes "chain bc \<noteq> []" "is_valid H bc" "add_blocks H ps bc = Some (Inr bc')"
  shows "is_valid H bc' \<and> length (chain bc') = length (chain bc) + length ps \<and>
         take (length (chain bc)) (chain bc') = chain bc"
  using assms
proof (induction ps arbitrary: bc)
  case Nil
  then show ?case by simp
next
  case (Cons tp ps)
  obtain ts dat where tp: "tp = (ts, dat)" by (cases tp)
  from Cons.prems(3) tp obtain nb bc1 where
    a: "add_block H ts dat bc = Some (Inr (nb, bc1))" and r: "add_blocks H ps bc1 = Some (Inr bc')"
    by (auto split: option.splits sum.splits)
  note s = add_block_sealed[OF a]
  from s(7) have ne1: "chain bc1 \<noteq> []" by simp
  have v1: "is_valid H bc1" by (rule add_block_keeps_valid[OF Cons.prems(1,2) a])
  from Cons.IH[OF ne1 v1 r] have ih: "is_valid H bc'"
    "length (chain bc') = length (chain bc1) + length ps"
    "take (length (chain bc1)) (chain bc') = chain bc1" by simp_all
  from ih(3) s(7) have "take (length (chain bc)) (take (length (chain bc1)) (chain bc')) = chain bc"
    by simp
  then have "take (length (chain bc)) (chain bc') = chain bc"
    by (simp add: s(7) min_def)
  with ih(1,2) s(7) show ?case by simp
qed

lemma Blockchain_init_chain:
  "chain (Blockchain_init H ts) =
     [Block_init H ts 0 (JDict [(''message'', JStr ''Genesis block'')]) ''0'']"
  "difficulty (Blockchain_init H ts) = 4"
  by (simp_all add: Blockchain_init_def create_genesis_block_def)

lemma is_valid_single: "chain bc = [g] \<Longrightarrow> is_valid H bc"
  by (simp add: is_valid_iff)

subsection \<open>Serialization\<close>

lemma block_string_explicit:
  "block_string b =
     ''{'' @ encode_str ''data'' @ '': '' @ dumps (data b) @ '', '' @
     encode_str ''index'' @ '': '' @ str_int (index b) @ '', '' @
     encode_str ''nonce'' @ '': '' @ str_int (nonce b) @ '', '' @
     encode_str ''previous_hash'' @ '': '' @ encode_str (previous_hash b) @ '', '' @
     encode_str ''timestamp'' @ '': '' @ timestamp b @ ''}''"
  by (simp add: block_string_def block_dict_def)







subsection \<open>SHA-256 digests have 64 characters\<close>

lemma length_hex_of [simp]: "length (hex_of w) = 8"
  by (simp add: hex_of_def)

lemma length_hex_state [simp]: "length (hex_state st) = 64"
proof -
  obtain a b c d e f g h where "st = (a, b, c, d, e, f, g, h)"
    by (metis prod_cases4)
  then show ?thesis by simp
qed

lemma length_sha256_hexdigest [simp]: "length (sha256_hexdigest s) = 64"
  by (simp add: sha256_hexdigest_def)

text \<open>The first test vector of the standard.\<close>

lemma sha256_abc:
  "sha256_hexdigest ''abc'' = ''ba7816bf8f01cfea414140de5dae2223b00361a396177a9cb410ff61f20015ad''"
  by code_simp

subsection \<open>Running the demonstration\<close>

lemmas demo_defs = demo_chain_def demo_genesis_def demo_block1_def demo_block2_def
  genesis_payload_def alice_payload_def bob_payload_def alice_reordered_def tampered_payload_def
  forged_genesis_def forged_block_def

lemmas digest_eval = block_string_explicit checksum_digest_def checksum_def
  encode_str_def escape_char_def str_int_def digit_char_def

lemma Block_init_eq:
  "Block_init H ts i d p = \<lparr>index = i, timestamp = ts, data = d, previous_hash = p, nonce = 0,
     hash = H (block_string \<lparr>index = i, timestamp = ts, data = d, previous_hash = p, nonce = 0,
       hash = []\<rparr>)\<rparr>"
  by (simp add: Block_init_def Let_def compute_hash_def)

lemma next_nonce_eq:
  "next_nonce H b = b\<lparr>nonce := nonce b + 1, hash := H (block_string (b\<lparr>nonce := nonce b + 1\<rparr>))\<rparr>"
  by (simp add: next_nonce_def Let_def compute_hash_def)

lemma add_block_returns:
  assumes ne: "chain bc \<noteq> []"
    and found: "startswith (hash (after_turns H n
        (Block_init H ts (int (length (chain bc))) dat (hash (last (chain bc))))))
        (zeros (difficulty bc))"
    and least: "\<forall>m < n. \<not> startswith (hash (after_turns H m
        (Block_init H ts (int (length (chain bc))) dat (hash (last (chain bc))))))
        (zeros (difficulty bc))"
  shows "add_block H ts dat bc =
     Some (Inr (after_turns H n (Block_init H ts (int (length (chain bc))) dat (hash (last (chain bc)))),
       bc\<lparr>chain := chain bc @
         [after_turns H n (Block_init H ts (int (length (chain bc))) dat (hash (last (chain bc))))]\<rparr>))"
  using pow_loop_found[OF found least] ne
  by (simp add: add_block_def last_block_nonempty proof_of_work_def)

lemma demo_hashes:
  "compute_hash checksum_digest demo_genesis = ''00008544''"
  "compute_hash checksum_digest demo_block1 = ''00009550''"
  "compute_hash checksum_digest demo_block2 = ''00009724''"
  by (simp_all add: demo_defs compute_hash_def digest_eval)

lemma demo_genesis_init:
  "Block_init checksum_digest ''1700000000.25'' 0 genesis_payload ''0'' = demo_genesis"
  unfolding Block_init_eq by (simp add: demo_defs digest_eval)

lemma demo_block1_init:
  "Block_init checksum_digest ''1700000002.5'' 1 alice_payload ''00008544'' =
     demo_block1\<lparr>nonce := 0, hash := ''ffff9549''\<rparr>"
  unfolding Block_init_eq by (simp add: demo_defs digest_eval)

lemma demo_block1_next:
  "next_nonce checksum_digest (demo_block1\<lparr>nonce := 0, hash := ''ffff9549''\<rparr>) = demo_block1"
  unfolding next_nonce_eq by (simp add: demo_defs digest_eval)

lemma demo_block2_init:
  "Block_init checksum_digest ''1700000004.5'' 2 bob_payload ''00009550'' = demo_block2"
  unfolding Block_init_eq by (simp add: demo_defs digest_eval)

lemma demo_init:
  "Blockchain_init checksum_digest ''1700000000.25'' = \<lparr>chain = [demo_genesis], difficulty = 4\<rparr>"
  by (simp add: Blockchain_init_def create_genesis_block_def demo_genesis_init[unfolded genesis_payload_def])

lemma zeros_4: "zeros 4 = ''0000''"
  by (simp add: zeros_def eval_nat_numeral)

lemma demo_add1:
  "add_block checksum_digest ''1700000002.5'' alice_payload \<lparr>chain = [demo_genesis], difficulty = 4\<rparr>
     = Some (Inr (demo_block1, \<lparr>chain = [demo_genesis, demo_block1], difficulty = 4\<rparr>))"
proof -
  let ?bc = "\<lparr>chain = [demo_genesis], difficulty = 4\<rparr>"
  have h: "hash (last (chain ?bc)) = ''00008544''" by (simp add: demo_genesis_def)
  have b0: "Block_init checksum_digest ''1700000002.5'' (int (length (chain ?bc))) alice_payload
      (hash (last (chain ?bc))) = demo_block1\<lparr>nonce := 0, hash := ''ffff9549''\<rparr>"
    unfolding h using demo_block1_init by simp
  have a1: "after_turns checksum_digest 1 (demo_block1\<lparr>nonce := 0, hash := ''ffff9549''\<rparr>) = demo_block1"
    by (simp add: after_turns_def demo_block1_next)
  have "add_block checksum_digest ''1700000002.5'' alice_payload ?bc =
     Some (Inr (after_turns checksum_digest 1 (demo_block1\<lparr>nonce := 0, hash := ''ffff9549''\<rparr>),
       ?bc\<lparr>chain := chain ?bc @ [after_turns checksum_digest 1 (demo_block1\<lparr>nonce := 0, hash := ''ffff9549''\<rparr>)]\<rparr>))"
    unfolding b0[symmetric]
  proof (rule add_block_returns)
    show "chain ?bc \<noteq> []" by simp
    show "startswith (hash (after_turns checksum_digest 1 (Block_init checksum_digest ''1700000002.5''
        (int (length (chain ?bc))) alice_payload (hash (last (chain ?bc)))))) (zeros (difficulty ?bc))"
      unfolding b0 a1 by (simp add: zeros_4 demo_block1_def)
    show "\<forall>m < 1. \<not> startswith (hash (after_turns checksum_digest m (Block_init checksum_digest ''1700000002.5''
        (int (length (chain ?bc))) alice_payload (hash (last (chain ?bc)))))) (zeros (difficulty ?bc))"
      unfolding b0 by (simp add: zeros_4)
  qed
  then show ?thesis unfolding a1 by simp
qed

lemma demo_add2:
  "add_block checksum_digest ''1700000004.5'' bob_payload \<lparr>chain = [demo_genesis, demo_block1], difficulty = 4\<rparr>
     = Some (Inr (demo_block2, demo_chain))"
proof -
  let ?bc = "\<lparr>chain = [demo_genesis, demo_block1], difficulty = 4\<rparr>"
  have h: "hash (last (chain ?bc)) = ''00009550''" by (simp add: demo_block1_def)
  have b0: "Block_init checksum_digest ''1700000004.5'' (int (length (chain ?bc))) bob_payload
      (hash (last (chain ?bc))) = demo_block2"
    unfolding h using demo_block2_init by simp
  have "add_block checksum_digest ''1700000004.5'' bob_payload ?bc =
     Some (Inr (after_turns checksum_digest 0 demo_block2,
       ?bc\<lparr>chain := chain ?bc @ [after_turns checksum_digest 0 demo_block2]\<rparr>))"
    unfolding b0[symmetric]
  proof (rule add_block_returns)
    show "chain ?bc \<noteq> []" by simp
    show "startswith (hash (after_turns checksum_digest 0 (Block_init checksum_digest ''1700000004.5''
        (int (length (chain ?bc))) bob_payload (hash (last (chain ?bc)))))) (zeros (difficulty ?bc))"
      unfolding b0 by (simp add: zeros_4 demo_block2_def)
    show "\<forall>m < 0. \<not> startswith (hash (after_turns checksum_digest m (Block_init checksum_digest ''1700000004.5''
        (int (length (chain ?bc))) bob_payload (hash (last (chain ?bc)))))) (zeros (difficulty ?bc))"
      by simp
  qed
  then show ?thesis by (simp add: demo_chain_def)
qed

lemma demo_add_blocks:
  "add_blocks checksum_digest
     [(''1700000002.5'', alice_payload), (''1700000004.5'', bob_payload)]
     (Blockchain_init checksum_digest ''1700000000.25'') = Some (Inr demo_chain)"
  by (simp add: demo_init demo_add1 demo_add2)

lemma demo_valid: "is_valid checksum_digest demo_chain"
proof -
  have "block_checks checksum_digest 4 [demo_genesis, demo_block1, demo_block2] j"
    if "1 \<le> j \<and> j < 3" for j
  proof -
    from that have "j = 1 \<or> j = 2" by auto
    then show ?thesis
    proof
      assume "j = 1"
      then show ?thesis
        by (simp add: block_checks_def demo_hashes) (simp add: demo_defs eval_nat_numeral)
    next
      assume "j = 2"
      then show ?thesis
        by (simp add: block_checks_def demo_hashes) (simp add: demo_defs eval_nat_numeral)
    qed
  qed
  then show ?thesis by (simp add: is_valid_iff demo_chain_def)
qed

lemma nat_4_replicate: "replicate (nat 4) c = [c, c, c, c]"
  by (simp add: eval_nat_numeral)

lemma demo_pow1:
  "proof_of_work checksum_digest \<lparr>chain = [demo_genesis], difficulty = 4\<rparr>
     (demo_block1\<lparr>nonce := 0, hash := ''ffff9549''\<rparr>) = Some (''00009550'', demo_block1)"
proof -
  let ?b0 = "demo_block1\<lparr>nonce := 0, hash := ''ffff9549''\<rparr>"
  have a1: "after_turns checksum_digest 1 ?b0 = demo_block1"
    by (simp add: after_turns_def demo_block1_next)
  have "pow_loop checksum_digest ''0000'' ?b0 = Some (after_turns checksum_digest 1 ?b0)"
  proof (rule pow_loop_found)
    show "startswith (hash (after_turns checksum_digest 1 ?b0)) ''0000''"
      unfolding a1 by (simp add: demo_block1_def)
    show "\<forall>m < 1. \<not> startswith (hash (after_turns checksum_digest m ?b0)) ''0000''"
      by simp
  qed
  then have "pow_loop checksum_digest ''0000'' ?b0 = Some demo_block1"
    unfolding a1 .
  moreover have "hash demo_block1 = ''00009550''"
    by (simp add: demo_block1_def)
  ultimately show ?thesis
    by (simp add: proof_of_work_def zeros_4)
qed

lemma demo_pow2:
  "proof_of_work checksum_digest demo_chain demo_block2 = Some (''00009724'', demo_block2)"
proof -
  have "startswith (hash demo_block2) (zeros (difficulty demo_chain))"
    by (simp add: demo_chain_def demo_block2_def zeros_4)
  from proof_of_work_immediate[OF this] show ?thesis
    by (simp add: demo_block2_def)
qed


subsection \<open>Two payloads with one SHA-256 digest\<close>













section \<open>The claims\<close>

text \<open>
  C1. \<open>is_valid\<close> returns true exactly when every block at a position from 1 on passes
  the three tests: its stored hash is its computed hash, its \<open>previous_hash\<close> is the hash
  of the block before it, and its hash begins with \<open>difficulty\<close> zeros. The block at
  position 0 is not tested. \<open>is_valid\<close> is a total function into \<open>bool\<close>: a broken
  chain gives \<open>False\<close>, never an exception.
\<close>

theorem validate_iff_all_checks:
  "is_valid H bc \<longleftrightarrow>
     (\<forall>i \<in> {1 ..< length (chain bc)}. block_checks H (difficulty bc) (chain bc) i)"
  by (auto simp: is_valid_iff)

theorem validate_iff_all_checks_witness:
  "is_valid checksum_digest demo_chain \<and>
   block_checks checksum_digest 4 [demo_genesis, demo_block1, demo_block2] 1 \<and>
   block_checks checksum_digest 4 [demo_genesis, demo_block1, demo_block2] 2"
  using validate_iff_all_checks[of checksum_digest demo_chain] demo_valid
  by (simp add: demo_chain_def)




text \<open>
  C3. On a chain that is not empty, \<open>add_block\<close> never raises. When it returns, the
  block it returns has the length of the chain before the call as its index, the hash of
  the last block of that chain as its \<open>previous_hash\<close> and the payload it was given, and
  the chain after the call is the chain before it with exactly that block at its end.
  It fails to return only when no nonce gives the new block a hash with the prefix.
\<close>

theorem add_block_appends:
  assumes "chain bc \<noteq> []"
  shows "case add_block H ts dat bc of
           None \<Rightarrow>
             \<forall>n. \<not> startswith
               (hash (after_turns H n
                  (Block_init H ts (int (length (chain bc))) dat (hash (last (chain bc))))))
               (zeros (difficulty bc))
         | Some (Inl e) \<Rightarrow> False
         | Some (Inr (b, bc')) \<Rightarrow>
             index b = int (length (chain bc)) \<and>
             previous_hash b = hash (last (chain bc)) \<and>
             data b = dat \<and>
             chain bc' = chain bc @ [b] \<and>
             difficulty bc' = difficulty bc"
proof (cases "add_block H ts dat bc")
  case None
  with assms have "pow_loop H (zeros (difficulty bc))
      (Block_init H ts (int (length (chain bc))) dat (hash (last (chain bc)))) = None"
    by (auto simp: add_block_def last_block_nonempty proof_of_work_def split: option.splits)
  with None show ?thesis
    by (simp add: pow_loop_None_iff)
next
  case (Some r)
  show ?thesis
  proof (cases r)
    case (Inl e)
    with Some assms show ?thesis
      by (auto simp: add_block_def last_block_nonempty split: option.splits)
  next
    case (Inr pr)
    obtain b bc' where pr: "pr = (b, bc')" by (cases pr)
    with Some Inr have a: "add_block H ts dat bc = Some (Inr (b, bc'))" by simp
    from add_block_sealed[OF a] a show ?thesis by simp
  qed
qed

theorem add_block_appends_witness:
  "chain \<lparr>chain = [demo_genesis], difficulty = 4\<rparr> \<noteq> [] \<and>
   add_block checksum_digest ''1700000002.5'' alice_payload \<lparr>chain = [demo_genesis], difficulty = 4\<rparr>
     = Some (Inr (demo_block1, \<lparr>chain = [demo_genesis, demo_block1], difficulty = 4\<rparr>)) \<and>
   index demo_block1 = 1 \<and>
   previous_hash demo_block1 = hash demo_genesis \<and>
   data demo_block1 = alice_payload"
  using add_block_appends[of "\<lparr>chain = [demo_genesis], difficulty = 4\<rparr>" checksum_digest
      "''1700000002.5''" alice_payload] demo_add1
  by simp

text \<open>
  C4. When \<open>proof_of_work\<close> returns, the hash of the block begins with \<open>difficulty\<close>
  zeros and is the value returned. It is the computed hash of the block as it then stands
  whenever it was so on entry, as for every block fresh from its constructor, or the loop
  took at least one turn. So every block that \<open>add_block\<close> returns has a hash with the
  prefix that is its computed hash.
\<close>

theorem mine_result:
  "(proof_of_work H bc b = Some (h, b') \<longrightarrow>
      take (nat (difficulty bc)) (hash b') = replicate (nat (difficulty bc)) CHR ''0'' \<and>
      h = hash b' \<and>
      (hash b = compute_hash H b \<or> nonce b' \<noteq> nonce b \<longrightarrow> hash b' = compute_hash H b')) \<and>
   (add_block H ts dat bc = Some (Inr (nb, bc')) \<longrightarrow>
      take (nat (difficulty bc)) (hash nb) = replicate (nat (difficulty bc)) CHR ''0'' \<and>
      hash nb = compute_hash H nb)"
proof (intro conjI impI)
  assume p: "proof_of_work H bc b = Some (h, b')"
  note d = proof_of_work_SomeD[OF p]
  note f = pow_loop_frame[OF d(1)]
  from f(6) show "take (nat (difficulty bc)) (hash b') = replicate (nat (difficulty bc)) CHR ''0''"
    by (simp add: startswith_zeros)
  from d(2) show "h = hash b'" .
  assume "hash b = compute_hash H b \<or> nonce b' \<noteq> nonce b"
  then show "hash b' = compute_hash H b'" by (rule f(7))
next
  assume a: "add_block H ts dat bc = Some (Inr (nb, bc'))"
  note s = add_block_sealed[OF a]
  from s(6) show "take (nat (difficulty bc)) (hash nb) = replicate (nat (difficulty bc)) CHR ''0''" .
  from s(5) show "hash nb = compute_hash H nb" .
qed

theorem mine_result_witness:
  "proof_of_work checksum_digest \<lparr>chain = [demo_genesis], difficulty = 4\<rparr>
     (demo_block1\<lparr>nonce := 0, hash := ''ffff9549''\<rparr>) = Some (''00009550'', demo_block1) \<and>
   take 4 (hash demo_block1) = ''0000'' \<and>
   ''00009550'' = hash demo_block1 \<and>
   nonce demo_block1 \<noteq> nonce (demo_block1\<lparr>nonce := 0, hash := ''ffff9549''\<rparr>) \<and>
   hash demo_block1 = compute_hash checksum_digest demo_block1 \<and>
   add_block checksum_digest ''1700000002.5'' alice_payload \<lparr>chain = [demo_genesis], difficulty = 4\<rparr>
     = Some (Inr (demo_block1, \<lparr>chain = [demo_genesis, demo_block1], difficulty = 4\<rparr>))"
proof -
  let ?bc = "\<lparr>chain = [demo_genesis], difficulty = 4\<rparr>"
  let ?b0 = "demo_block1\<lparr>nonce := 0, hash := ''ffff9549''\<rparr>"
  have n: "nonce demo_block1 \<noteq> nonce ?b0"
    by (simp add: demo_block1_def)
  note m = mine_result[of checksum_digest ?bc ?b0 "''00009550''" demo_block1
      "''1700000002.5''" alice_payload demo_block1
      "\<lparr>chain = [demo_genesis, demo_block1], difficulty = 4\<rparr>"]
  from m demo_pow1 have "take (nat (difficulty ?bc)) (hash demo_block1) =
      replicate (nat (difficulty ?bc)) CHR ''0''"
    by blast
  then have 1: "take 4 (hash demo_block1) = ''0000''"
    by (simp add: eval_nat_numeral)
  from m demo_pow1 have 2: "''00009550'' = hash demo_block1"
    by blast
  from m demo_pow1 n have 3: "hash demo_block1 = compute_hash checksum_digest demo_block1"
    by blast
  from 1 2 3 n demo_pow1 demo_add1 show ?thesis
    by (intro conjI)
qed

text \<open>
  The claim as it was stated also covers a block whose stored hash is not its computed
  hash on entry. Under SHA-256, \<open>forged_block\<close> has the hash field \<open>0000\<close>; the loop
  sees the prefix and returns at once, and the computed hash, 64 characters long, is
  another text.
\<close>

theorem mine_stale_hash_counterexample:
  "proof_of_work sha256_hexdigest (Blockchain_init sha256_hexdigest ''1700000000.25'') forged_block
     = Some (''0000'', forged_block) \<and>
   hash forged_block \<noteq> compute_hash sha256_hexdigest forged_block"
proof
  have "startswith (hash forged_block)
      (zeros (difficulty (Blockchain_init sha256_hexdigest ''1700000000.25'')))"
    by (simp add: Blockchain_init_chain zeros_4 forged_block_def)
  from proof_of_work_immediate[OF this]
  show "proof_of_work sha256_hexdigest (Blockchain_init sha256_hexdigest ''1700000000.25'')
      forged_block = Some (''0000'', forged_block)"
    by (simp add: forged_block_def)
  have "length (hash forged_block) = 4" by (simp add: forged_block_def)
  moreover have "length (compute_hash sha256_hexdigest forged_block) = 64"
    by (simp add: compute_hash_def)
  ultimately show "hash forged_block \<noteq> compute_hash sha256_hexdigest forged_block"
    by auto
qed

text \<open>
  C5. Every chain that \<open>Blockchain()\<close> and any number of calls of \<open>add_block\<close> that
  return, and nothing else, produce is accepted by \<open>is_valid\<close>. It has one block more
  than there were calls, its first block is the genesis block, and every later block
  has the hash of the block before it as its \<open>previous_hash\<close>.
\<close>

theorem built_chain_valid:
  assumes "add_blocks H ps (Blockchain_init H ts0) = Some (Inr bc)"
  shows "is_valid H bc \<and>
         length (chain bc) = Suc (length ps) \<and>
         chain bc ! 0 = Block_init H ts0 0 (JDict [(''message'', JStr ''Genesis block'')]) ''0'' \<and>
         (\<forall>i \<in> {1 ..< length (chain bc)}.
            previous_hash (chain bc ! i) = hash (chain bc ! (i - 1)))"
proof -
  let ?bc0 = "Blockchain_init H ts0"
  have ne: "chain ?bc0 \<noteq> []" by (simp add: Blockchain_init_chain)
  have v0: "is_valid H ?bc0"
    by (rule is_valid_single) (rule Blockchain_init_chain(1))
  from add_blocks_invariant[OF ne v0 assms]
  have v: "is_valid H bc" and l: "length (chain bc) = length (chain ?bc0) + length ps"
    and t: "take (length (chain ?bc0)) (chain bc) = chain ?bc0"
    by simp_all
  from l have len: "length (chain bc) = Suc (length ps)"
    by (simp add: Blockchain_init_chain)
  from t have "take 1 (chain bc) = chain ?bc0"
    by (simp add: Blockchain_init_chain)
  then have "hd (take 1 (chain bc)) = hd (chain ?bc0)" by simp
  with len have g: "chain bc ! 0 =
      Block_init H ts0 0 (JDict [(''message'', JStr ''Genesis block'')]) ''0''"
    by (cases "chain bc") (simp_all add: Blockchain_init_chain)
  from v have "\<forall>i \<in> {1 ..< length (chain bc)}.
      previous_hash (chain bc ! i) = hash (chain bc ! (i - 1))"
    by (auto simp: is_valid_iff block_checks_def)
  with v len g show ?thesis by simp
qed

theorem built_chain_valid_witness:
  "add_blocks checksum_digest
     [(''1700000002.5'', alice_payload), (''1700000004.5'', bob_payload)]
     (Blockchain_init checksum_digest ''1700000000.25'') = Some (Inr demo_chain) \<and>
   is_valid checksum_digest demo_chain \<and>
   length (chain demo_chain) = 3 \<and>
   chain demo_chain ! 0 = demo_genesis \<and>
   previous_hash (chain demo_chain ! 1) = hash (chain demo_chain ! 0) \<and>
   previous_hash (chain demo_chain ! 2) = hash (chain demo_chain ! 1)"
proof -
  note b = built_chain_valid[OF demo_add_blocks]
  from b have 1: "is_valid checksum_digest demo_chain" by blast
  from b have "length (chain demo_chain) =
      Suc (length [(''1700000002.5'', alice_payload), (''1700000004.5'', bob_payload)])"
    by blast
  then have 2: "length (chain demo_chain) = 3" by simp
  from b have "\<forall>i \<in> {1 ..< length (chain demo_chain)}.
      previous_hash (chain demo_chain ! i) = hash (chain demo_chain ! (i - 1))"
    by blast
  with 2 have 3: "previous_hash (chain demo_chain ! 1) = hash (chain demo_chain ! 0)"
    "previous_hash (chain demo_chain ! 2) = hash (chain demo_chain ! 1)"
    by simp_all
  have 4: "chain demo_chain ! 0 = demo_genesis" by (simp add: demo_chain_def)
  from 1 2 3 4 demo_add_blocks show ?thesis by (intro conjI)
qed



text \<open>
  C7. \<open>Blockchain()\<close> gives a chain of exactly one block, the genesis block: index 0,
  \<open>previous_hash\<close> \<open>"0"\<close>, the payload \<open>{"message": "Genesis block"}\<close>, nonce 0 and
  its computed hash; \<open>is_valid\<close> accepts that chain.
\<close>

theorem fresh_chain:
  "chain (Blockchain_init H ts) =
     [Block_init H ts 0 (JDict [(''message'', JStr ''Genesis block'')]) ''0''] \<and>
   index (Block_init H ts 0 (JDict [(''message'', JStr ''Genesis block'')]) ''0'') = 0 \<and>
   previous_hash (Block_init H ts 0 (JDict [(''message'', JStr ''Genesis block'')]) ''0'') = ''0'' \<and>
   data (Block_init H ts 0 (JDict [(''message'', JStr ''Genesis block'')]) ''0'') =
     JDict [(''message'', JStr ''Genesis block'')] \<and>
   nonce (Block_init H ts 0 (JDict [(''message'', JStr ''Genesis block'')]) ''0'') = 0 \<and>
   is_valid H (Blockchain_init H ts)"
  using is_valid_single[OF Blockchain_init_chain(1), of H H ts]
  by (simp add: Blockchain_init_chain)

theorem fresh_chain_witness:
  "chain (Blockchain_init checksum_digest ''1700000000.25'') = [demo_genesis] \<and>
   index demo_genesis = 0 \<and> previous_hash demo_genesis = ''0'' \<and>
   data demo_genesis = genesis_payload \<and>
   is_valid checksum_digest (Blockchain_init checksum_digest ''1700000000.25'')"
  using fresh_chain[of checksum_digest "''1700000000.25''"]
  by (simp add: demo_genesis_init[unfolded genesis_payload_def, symmetric] genesis_payload_def)

text \<open>
  C8. The result of \<open>is_valid\<close> depends on the first block of the chain through its
  stored hash alone: two chains that differ only in their first blocks, these two with
  the same stored hash, get the same result, whatever the payload, the nonce or the
  other fields of the first block and whether or not its stored hash is its computed
  hash or has the prefix. A chain that is its first block alone is accepted.
\<close>

theorem genesis_not_checked:
  assumes "hash g = hash g'"
  shows "is_valid H (bc\<lparr>chain := g # rest\<rparr>) = is_valid H (bc\<lparr>chain := g' # rest\<rparr>) \<and>
         is_valid H (bc\<lparr>chain := [g]\<rparr>)"
proof
  show "is_valid H (bc\<lparr>chain := g # rest\<rparr>) = is_valid H (bc\<lparr>chain := g' # rest\<rparr>)"
    using block_checks_genesis_swap[OF assms, of _ H "difficulty bc" rest]
    by (simp add: is_valid_iff)
  show "is_valid H (bc\<lparr>chain := [g]\<rparr>)"
    by (rule is_valid_single) simp
qed

theorem genesis_not_checked_witness:
  "hash demo_genesis = hash forged_genesis \<and>
   data demo_genesis \<noteq> data forged_genesis \<and>
   nonce demo_genesis \<noteq> nonce forged_genesis \<and>
   hash forged_genesis \<noteq> compute_hash sha256_hexdigest forged_genesis \<and>
   is_valid checksum_digest demo_chain \<and>
   is_valid checksum_digest
     (demo_chain\<lparr>chain := [forged_genesis, demo_block1, demo_block2]\<rparr>) \<and>
   is_valid sha256_hexdigest (demo_chain\<lparr>chain := [forged_genesis]\<rparr>)"
proof -
  have h: "hash demo_genesis = hash forged_genesis"
    by (simp add: demo_genesis_def forged_genesis_def)
  have d: "data demo_genesis \<noteq> data forged_genesis"
    by (simp add: demo_genesis_def forged_genesis_def genesis_payload_def tampered_payload_def)
  have n: "nonce demo_genesis \<noteq> nonce forged_genesis"
    by (simp add: demo_genesis_def forged_genesis_def)
  have "length (hash forged_genesis) = 8" by (simp add: forged_genesis_def)
  moreover have "length (compute_hash sha256_hexdigest forged_genesis) = 64"
    by (simp add: compute_hash_def)
  ultimately have s: "hash forged_genesis \<noteq> compute_hash sha256_hexdigest forged_genesis"
    by auto
  have c: "demo_chain\<lparr>chain := [demo_genesis, demo_block1, demo_block2]\<rparr> = demo_chain"
    by (simp add: demo_chain_def)
  from genesis_not_checked[OF h, where H = checksum_digest and bc = demo_chain
      and rest = "[demo_block1, demo_block2]"]
    demo_valid
  have v: "is_valid checksum_digest
      (demo_chain\<lparr>chain := [forged_genesis, demo_block1, demo_block2]\<rparr>)"
    by (simp add: c)
  from genesis_not_checked[OF h[symmetric], where H = sha256_hexdigest and bc = demo_chain
      and rest = "[]"]
  have v1: "is_valid sha256_hexdigest (demo_chain\<lparr>chain := [forged_genesis]\<rparr>)"
    by blast
  from h d n s demo_valid v v1 show ?thesis by (intro conjI)
qed

text \<open>
  C9. \<open>last_block\<close> on a chain with no block fails with \<open>IndexError\<close>, the builtin
  exception that \<open>self.chain[-1]\<close> raises; on every other chain it returns the last
  block of the list, which after an \<open>add_block\<close> that returned is the block that call
  appended.
\<close>

theorem tail_block:
  "(chain bc = [] \<longrightarrow> last_block bc = Inl IndexError) \<and>
   (chain bc \<noteq> [] \<longrightarrow> last_block bc = Inr (last (chain bc))) \<and>
   (add_block H ts dat bc = Some (Inr (b, bc')) \<longrightarrow> last_block bc' = Inr b)"
proof (intro conjI impI)
  assume "chain bc = []"
  then show "last_block bc = Inl IndexError" by (rule last_block_empty)
next
  assume "chain bc \<noteq> []"
  then show "last_block bc = Inr (last (chain bc))" by (rule last_block_nonempty)
next
  assume "add_block H ts dat bc = Some (Inr (b, bc'))"
  from add_block_sealed(7)[OF this] show "last_block bc' = Inr b"
    by (simp add: last_block_nonempty)
qed

theorem tail_block_witness:
  "chain \<lparr>chain = [], difficulty = 4\<rparr> = [] \<and>
   last_block \<lparr>chain = [], difficulty = 4\<rparr> = Inl IndexError \<and>
   chain demo_chain \<noteq> [] \<and>
   last_block demo_chain = Inr demo_block2 \<and>
   add_block checksum_digest ''1700000002.5'' alice_payload \<lparr>chain = [demo_genesis], difficulty = 4\<rparr>
     = Some (Inr (demo_block1, \<lparr>chain = [demo_genesis, demo_block1], difficulty = 4\<rparr>)) \<and>
   last_block \<lparr>chain = [demo_genesis, demo_block1], difficulty = 4\<rparr> = Inr demo_block1"
proof -
  have e: "chain \<lparr>chain = [], difficulty = 4\<rparr> = []" by simp
  have ne: "chain demo_chain \<noteq> []" by (simp add: demo_chain_def)
  from tail_block[where bc = "\<lparr>chain = [], difficulty = 4\<rparr>"] e
  have 1: "last_block \<lparr>chain = [], difficulty = 4\<rparr> = Inl IndexError" by blast
  from tail_block[where bc = demo_chain] ne
  have "last_block demo_chain = Inr (last (chain demo_chain))" by blast
  then have 2: "last_block demo_chain = Inr demo_block2" by (simp add: demo_chain_def)
  from tail_block[where bc = "\<lparr>chain = [demo_genesis], difficulty = 4\<rparr>"
      and H = checksum_digest and ts = "''1700000002.5''" and dat = alice_payload
      and b = demo_block1 and bc' = "\<lparr>chain = [demo_genesis, demo_block1], difficulty = 4\<rparr>"] demo_add1
  have 3: "last_block \<lparr>chain = [demo_genesis, demo_block1], difficulty = 4\<rparr> = Inr demo_block1"
    by blast
  from e 1 ne 2 demo_add1 3 show ?thesis by (intro conjI)
qed

text \<open>
  The claim as it was stated names another error. On the chain with no block
  \<open>last_block\<close> fails with \<open>IndexError\<close>, which is not \<open>EmptyChainError\<close>.
\<close>

theorem tail_empty_counterexample:
  "last_block \<lparr>chain = [], difficulty = 4\<rparr> = Inl IndexError \<and>
   last_block \<lparr>chain = [], difficulty = 4\<rparr> \<noteq> Inl EmptyChainError"
  by (simp add: last_block_def)

text \<open>
  C10. When the hash of a block already begins with \<open>difficulty\<close> zeros on entry,
  \<open>proof_of_work\<close> returns that hash at once and leaves the block, nonce and hash
  included, as it was. So a block whose first hash, at nonce 0, has the prefix is
  appended by \<open>add_block\<close> as its constructor made it, sealed with nonce 0.
\<close>

theorem mine_immediate:
  "(take (nat (difficulty bc)) (hash b) = replicate (nat (difficulty bc)) CHR ''0'' \<longrightarrow>
      proof_of_work H bc b = Some (hash b, b)) \<and>
   (chain bc \<noteq> [] \<and>
    take (nat (difficulty bc))
      (hash (Block_init H ts (int (length (chain bc))) dat (hash (last (chain bc))))) =
      replicate (nat (difficulty bc)) CHR ''0'' \<longrightarrow>
      add_block H ts dat bc =
        Some (Inr (Block_init H ts (int (length (chain bc))) dat (hash (last (chain bc))),
          bc\<lparr>chain := chain bc @
            [Block_init H ts (int (length (chain bc))) dat (hash (last (chain bc)))]\<rparr>)) \<and>
      nonce (Block_init H ts (int (length (chain bc))) dat (hash (last (chain bc)))) = 0)"
proof (intro conjI impI)
  assume "take (nat (difficulty bc)) (hash b) = replicate (nat (difficulty bc)) CHR ''0''"
  then have "startswith (hash b) (zeros (difficulty bc))"
    by (simp add: startswith_zeros)
  then show "proof_of_work H bc b = Some (hash b, b)"
    by (rule proof_of_work_immediate)
next
  let ?b0 = "Block_init H ts (int (length (chain bc))) dat (hash (last (chain bc)))"
  assume a: "chain bc \<noteq> [] \<and>
    take (nat (difficulty bc)) (hash ?b0) = replicate (nat (difficulty bc)) CHR ''0''"
  then have "startswith (hash ?b0) (zeros (difficulty bc))"
    by (simp only: startswith_zeros)
  from proof_of_work_immediate[OF this, of H] a
  show "add_block H ts dat bc = Some (Inr (?b0, bc\<lparr>chain := chain bc @ [?b0]\<rparr>))"
    by (simp add: add_block_def last_block_nonempty)
next
  show "nonce (Block_init H ts (int (length (chain bc))) dat (hash (last (chain bc)))) = 0"
    by simp
qed

theorem mine_immediate_witness:
  "take 4 (hash demo_block2) = ''0000'' \<and>
   proof_of_work checksum_digest demo_chain demo_block2 = Some (hash demo_block2, demo_block2) \<and>
   add_block checksum_digest ''1700000004.5'' bob_payload
     \<lparr>chain = [demo_genesis, demo_block1], difficulty = 4\<rparr> = Some (Inr (demo_block2, demo_chain)) \<and>
   nonce demo_block2 = 0"
proof -
  let ?bc = "\<lparr>chain = [demo_genesis, demo_block1], difficulty = 4\<rparr>"
  have t: "take 4 (hash demo_block2) = ''0000''" by (simp add: demo_block2_def)
  then have t1: "take (nat (difficulty demo_chain)) (hash demo_block2) =
      replicate (nat (difficulty demo_chain)) CHR ''0''"
    by (simp add: demo_chain_def eval_nat_numeral)
  have b0: "Block_init checksum_digest ''1700000004.5'' (int (length (chain ?bc))) bob_payload
      (hash (last (chain ?bc))) = demo_block2"
    using demo_block2_init by (simp add: demo_block1_def)
  from t have t2: "chain ?bc \<noteq> [] \<and> take (nat (difficulty ?bc)) (hash demo_block2) =
      replicate (nat (difficulty ?bc)) CHR ''0''"
    by (simp add: eval_nat_numeral)
  from mine_immediate[where bc = demo_chain and b = demo_block2 and H = checksum_digest] t1
  have 1: "proof_of_work checksum_digest demo_chain demo_block2 = Some (hash demo_block2, demo_block2)"
    by blast
  note m = mine_immediate[where bc = ?bc and H = checksum_digest and ts = "''1700000004.5''"
      and dat = bob_payload, unfolded b0]
  from m t2 have 2: "add_block checksum_digest ''1700000004.5'' bob_payload ?bc =
      Some (Inr (demo_block2, ?bc\<lparr>chain := chain ?bc @ [demo_block2]\<rparr>))"
    and 3: "nonce demo_block2 = 0"
    by blast+
  from 2 have "add_block checksum_digest ''1700000004.5'' bob_payload ?bc =
      Some (Inr (demo_block2, demo_chain))"
    by (simp add: demo_chain_def)
  with t 1 3 show ?thesis by (intro conjI)
qed

end
